theory Spec2Isabelle
  imports Main "HOL-Library.Sublist"
begin

section \<open>Values of the voice-notes application\<close>

text \<open>
  The application (\<^verbatim>\<open>src/src/App.tsx\<close>) is one React function component. Its state
  variables, its event handlers and its two effects are embedded below. What the browser and
  the libraries contribute (the microphone, the HTTP response, the clock, the stored string)
  enters the model as data carried by events.
\<close>

subsection \<open>JSON values\<close>

text \<open>
  What \<^verbatim>\<open>JSON.parse\<close> and \<^verbatim>\<open>response.json()\<close> return. The payload of a
  number is never inspected by the application. An object is the list of its properties,
  each name once. A property that is missing reads as \<^verbatim>\<open>undefined\<close>, which is
  \<open>None\<close> of \<open>json option\<close>.
\<close>

datatype json =
    JNull
  | JBool bool
  | JNum int
  | JStr string
  | JArr "json list"
  | JObj "(string \<times> json) list"

datatype error =
    DeviceError
  | NetworkError
  | HttpError nat
  | SyntaxError
  | TypeError

subsection \<open>The note\<close>

text \<open>
  \<^verbatim>\<open>interface VoiceNote { id: string; date: string; text: string; completed: boolean }\<close>.
  The fields \<open>id\<close> and \<open>text\<close> are renamed (\<open>id\<close> is a HOL constant, \<open>text\<close> a
  keyword). The interface declares \<open>text\<close> a string, but line 96 stores \<^verbatim>\<open>data.text\<close>
  of an untyped response body, so the field holds whatever that expression evaluates to.
\<close>

record VoiceNote =
  note_id :: string
  date :: string
  note_text :: "json option"
  completed :: bool

subsection \<open>Strings\<close>

text \<open>
  Strings are lists of characters. \<open>includes_str\<close> is
  \<^verbatim>\<open>String.prototype.includes\<close>. \<^verbatim>\<open>String.prototype.toLowerCase\<close> is the case
  mapping of the JavaScript engine: it follows the Unicode tables, it is not applied
  character by character and it need not keep the length. It is no code of the application,
  so the functions that call it take it as the parameter \<open>lc\<close>, about which nothing is
  assumed.
\<close>

fun starts_with :: "string \<Rightarrow> string \<Rightarrow> bool" where
  "starts_with xs [] = True"
| "starts_with [] (y # ys) = False"
| "starts_with (x # xs) (y # ys) = (x = y \<and> starts_with xs ys)"

fun includes_str :: "string \<Rightarrow> string \<Rightarrow> bool" where
  "includes_str [] ys = (ys = [])"
| "includes_str (x # xs) ys = (starts_with (x # xs) ys \<or> includes_str xs ys)"

text \<open>\<^verbatim>\<open>Number.prototype.toString\<close> on a natural number: its decimal digits.\<close>

definition digit :: "nat \<Rightarrow> char" where
  "digit d = ''0123456789'' ! d"

fun toString :: "nat \<Rightarrow> string" where
  "toString n =
     (if n < 10 then [digit n]
      else toString (n div 10) @ [digit (n mod 10)])"

declare toString.simps [simp del]

subsection \<open>Calendar dates\<close>

text \<open>
  \<open>selectedDate\<close> is a \<^verbatim>\<open>Date\<close>; the application only ever passes it to
  \<^verbatim>\<open>format(selectedDate, 'yyyy-MM-dd')\<close> of date-fns, so it is modelled by the local
  calendar day it denotes (year, month, day of month). \<open>format\<close> pads the year to four
  digits and month and day to two.
\<close>

type_synonym day = "nat \<times> nat \<times> nat"

definition pad :: "nat \<Rightarrow> string \<Rightarrow> string" where
  "pad w s = replicate (w - length s) CHR ''0'' @ s"

fun format :: "day \<Rightarrow> string" where
  "format (y, m, d) =
     pad 4 (toString y) @ ''-'' @ pad 2 (toString m) @ ''-'' @ pad 2 (toString d)"

section \<open>The note store\<close>

subsection \<open>Mutations (lines 99, 107-115)\<close>

definition toggleNoteCompletion :: "string \<Rightarrow> VoiceNote list \<Rightarrow> VoiceNote list" where
  "toggleNoteCompletion i ns =
     map (\<lambda>n. if note_id n = i then n\<lparr>completed := \<not> completed n\<rparr> else n) ns"

definition deleteNote :: "string \<Rightarrow> VoiceNote list \<Rightarrow> VoiceNote list" where
  "deleteNote i ns = filter (\<lambda>n. note_id n \<noteq> i) ns"

subsection \<open>The filtered view (lines 117-120)\<close>

text \<open>
  \<^verbatim>\<open>Array.prototype.filter\<close> with a callback that may throw: the first exception ends
  the call. The callback of line 118 tests the date first; \<^verbatim>\<open>&&\<close> evaluates
  \<^verbatim>\<open>note.text.toLowerCase()\<close> only for a note of the selected day, and that call is a
  TypeError unless \<^verbatim>\<open>note.text\<close> is a string.
\<close>

fun filter_js :: "('a \<Rightarrow> error + bool) \<Rightarrow> 'a list \<Rightarrow> error + 'a list" where
  "filter_js p [] = Inr []"
| "filter_js p (x # xs) =
     (case p x of
        Inl e \<Rightarrow> Inl e
      | Inr b \<Rightarrow>
          (case filter_js p xs of
             Inl e \<Rightarrow> Inl e
           | Inr ys \<Rightarrow> Inr (if b then x # ys else ys)))"

definition note_matches ::
  "(string \<Rightarrow> string) \<Rightarrow> string \<Rightarrow> string \<Rightarrow> VoiceNote \<Rightarrow> error + bool" where
  "note_matches lc d s n =
     (if date n = d then
        (case note_text n of
           Some (JStr t) \<Rightarrow> Inr (includes_str (lc t) (lc s))
         | _ \<Rightarrow> Inl TypeError)
      else Inr False)"

definition filteredNotes ::
  "(string \<Rightarrow> string) \<Rightarrow> VoiceNote list \<Rightarrow> day \<Rightarrow> string \<Rightarrow> error + VoiceNote list" where
  "filteredNotes lc ns sel s = filter_js (note_matches lc (format sel) s) ns"

definition well_typed :: "VoiceNote \<Rightarrow> bool" where
  "well_typed n = (case note_text n of Some (JStr t) \<Rightarrow> True | _ \<Rightarrow> False)"

text \<open>
  The specification's reading of the query, to compare with: the text contains, somewhere,
  a stretch of characters that equals the search string up to the case of the letters. It is
  written for the letters A to Z, with the pairs of a capital and its small letter listed
  one by one.
\<close>

definition capitals :: string where
  "capitals = ''ABCDEFGHIJKLMNOPQRSTUVWXYZ''"

definition smalls :: string where
  "smalls = ''abcdefghijklmnopqrstuvwxyz''"

definition same_letter :: "char \<Rightarrow> char \<Rightarrow> bool" where
  "same_letter x y =
     (x = y \<or> (x, y) \<in> set (zip capitals smalls) \<or> (y, x) \<in> set (zip capitals smalls))"

definition same_ignoring_case :: "string \<Rightarrow> string \<Rightarrow> bool" where
  "same_ignoring_case a b = list_all2 same_letter a b"

definition contains_ignoring_case :: "string \<Rightarrow> string \<Rightarrow> bool" where
  "contains_ignoring_case t s = (\<exists>u w v. t = u @ w @ v \<and> same_ignoring_case w s)"

definition has_text :: "VoiceNote \<Rightarrow> string \<Rightarrow> bool" where
  "has_text n s = (\<exists>t. note_text n = Some (JStr t) \<and> contains_ignoring_case t s)"

text \<open>
  What \<^verbatim>\<open>toLowerCase\<close> does to a string of ASCII characters (code units below 128): the
  code units 65 to 90 move up by 32, the others stay.
\<close>

definition ascii :: "string \<Rightarrow> bool" where
  "ascii t = list_all (\<lambda>c. (of_char c :: nat) < 128) t"

definition ascii_lower_char :: "char \<Rightarrow> char" where
  "ascii_lower_char c =
     (let n = (of_char c :: nat) in if 65 \<le> n \<and> n \<le> 90 then char_of (n + 32) else c)"

definition ascii_lower :: "string \<Rightarrow> string" where
  "ascii_lower t = map ascii_lower_char t"

definition lowers_ascii :: "(string \<Rightarrow> string) \<Rightarrow> bool" where
  "lowers_ascii lc = (\<forall>t. ascii t \<longrightarrow> lc t = ascii_lower t)"

subsection \<open>Durable storage (lines 31-39)\<close>

text \<open>
  The item \<^verbatim>\<open>'voiceNotes'\<close> of \<^verbatim>\<open>localStorage\<close>. \<^verbatim>\<open>getItem\<close> returns
  \<^verbatim>\<open>null\<close> (\<open>None\<close>) or a string, and the code asks two things of the string: whether
  it is truthy (line 32) and what \<^verbatim>\<open>JSON.parse\<close> makes of it (line 33). The string is
  modelled by the answers: the empty string, a non-empty string that \<^verbatim>\<open>JSON.parse\<close>
  rejects, or a JSON text, given by the value it denotes.
\<close>

datatype stored =
    EmptyText
  | Unparseable
  | JsonText json

text \<open>
  \<^verbatim>\<open>JSON.stringify(voiceNotes)\<close>, as the value the written text denotes: an array of
  objects with the properties in the order of line 93-98; a property whose value is
  \<^verbatim>\<open>undefined\<close> is left out.
\<close>

definition json_of_note :: "VoiceNote \<Rightarrow> json" where
  "json_of_note n =
     JObj ([(''id'', JStr (note_id n)), (''date'', JStr (date n))]
           @ (case note_text n of None \<Rightarrow> [] | Some v \<Rightarrow> [(''text'', v)])
           @ [(''completed'', JBool (completed n))])"

definition JSON_stringify :: "VoiceNote list \<Rightarrow> json" where
  "JSON_stringify ns = JArr (map json_of_note ns)"

text \<open>
  Line 33 passes the parsed value to \<open>setVoiceNotes\<close> unchecked. The model's state holds
  notes, so the value is read as a \<^verbatim>\<open>VoiceNote[]\<close> where it is one (string \<open>id\<close> and
  \<open>date\<close>, boolean \<open>completed\<close>, \<open>text\<close> whatever the property reads as).
\<close>

fun note_of_json :: "json \<Rightarrow> VoiceNote option" where
  "note_of_json (JObj ps) =
     (case (map_of ps ''id'', map_of ps ''date'', map_of ps ''completed'') of
        (Some (JStr i), Some (JStr d), Some (JBool c)) \<Rightarrow>
          Some \<lparr>note_id = i, date = d, note_text = map_of ps ''text'', completed = c\<rparr>
      | _ \<Rightarrow> None)"
| "note_of_json _ = None"

fun notes_of_json :: "json \<Rightarrow> VoiceNote list option" where
  "notes_of_json (JArr vs) = those (map note_of_json vs)"
| "notes_of_json _ = None"

text \<open>
  The body of the load effect, lines 31-34: the argument of \<open>setVoiceNotes\<close> when it is
  called, \<open>None\<close> when the test of line 32 fails, the exception when \<^verbatim>\<open>JSON.parse\<close>
  throws. There is no handler around line 33.
\<close>

definition load_effect :: "stored option \<Rightarrow> error + json option" where
  "load_effect savedNotes =
     (case savedNotes of
        None \<Rightarrow> Inr None
      | Some EmptyText \<Rightarrow> Inr None
      | Some Unparseable \<Rightarrow> Inl SyntaxError
      | Some (JsonText v) \<Rightarrow> Inr (Some v))"

text \<open>
  How mounting ends: the component is on the page in a state; or an exception went uncaught
  and the component is not on the page; or (\<open>Ill_typed v\<close>) the state received the array
  \<open>v\<close>, some element of which is neither \<^verbatim>\<open>null\<close> nor a note, where the model stops.
\<close>

datatype 'a outcome =
    Ok 'a
  | Uncaught error
  | Ill_typed json

section \<open>The component\<close>

subsection \<open>State\<close>

text \<open>
  Every handler is created anew by each render and closes over that render's bindings.
  \<open>transcribeAudio\<close> reads \<open>selectedDate\<close> and \<open>voiceNotes\<close> (lines 95 and 99), and the
  stop listener of line 53 calls the \<open>transcribeAudio\<close> of the render whose
  \<open>startRecording\<close> installed it. A \<open>closure\<close> holds those two bindings.
\<close>

record closure =
  c_selectedDate :: day
  c_voiceNotes :: "VoiceNote list"

type_synonym blob = "nat list"

record recorder =
  listener :: closure
  active :: bool

record request =
  continuation :: closure
  audioFile :: blob

text \<open>
  The state variables of lines 19-23 and the storage item, followed by what is pending
  outside React: \<^verbatim>\<open>getUserMedia\<close> promises not yet settled, the \<^verbatim>\<open>MediaRecorder\<close>
  objects created so far (a recorder is named by its position), and the transcription
  requests not yet answered. The login flag of line 18 only decides whether the page with
  the buttons is shown; the events below are those of that page. \<open>mounted\<close> says that
  the component is on the page: React removes it when a render or an effect throws (the
  sources put no error boundary around it).
\<close>

record app =
  selectedDate :: day
  voiceNotes :: "VoiceNote list"
  recording :: bool
  mediaRecorder :: "nat option"
  searchTerm :: string
  localStorage :: "stored option"
  console :: "(string \<times> error) list"
  awaiting_media :: "closure list"
  recorders :: "recorder list"
  in_flight :: "request list"
  mounted :: bool

definition initial :: "day \<Rightarrow> stored option \<Rightarrow> app" where
  "initial today savedNotes =
     \<lparr>selectedDate = today, voiceNotes = [], recording = False, mediaRecorder = None,
      searchTerm = [], localStorage = savedNotes, console = [],
      awaiting_media = [], recorders = [], in_flight = [], mounted = True\<rparr>"

subsection \<open>Rendering and effects\<close>

text \<open>
  Every render evaluates the filter of lines 117-120 on the state. A state update is
  committed when the render that follows it returns; then the effects run. When the render
  throws, the update is dropped, no effect runs and the component is removed from the page.
  An update of a component that is no longer on the page does nothing. Only the updates of
  \<open>voiceNotes\<close>, \<open>selectedDate\<close> and \<open>searchTerm\<close> change what the filter reads, so only
  they are followed by a render in the model; updates made in one turn of the event loop are
  rendered together.
\<close>

definition render :: "(string \<Rightarrow> string) \<Rightarrow> app \<Rightarrow> error + VoiceNote list" where
  "render lc s = filteredNotes lc (voiceNotes s) (selectedDate s) (searchTerm s)"

text \<open>
  Whether the render throws does not depend on what \<^verbatim>\<open>toLowerCase\<close> returns: the filter
  throws a TypeError exactly when some note of the selected day has a text that is no string
  (lemma \<open>render_throws_iff\<close> below). The component's behaviour depends on the render only
  through this.
\<close>

definition render_throws :: "app \<Rightarrow> bool" where
  "render_throws s =
     list_ex (\<lambda>n. date n = format (selectedDate s) \<and> \<not> well_typed n) (voiceNotes s)"

definition commit :: "app \<Rightarrow> app \<Rightarrow> app" where
  "commit s s' =
     (if mounted s then (if render_throws s' then s\<lparr>mounted := False\<rparr> else s')
      else s)"

text \<open>
  The persist effect (lines 37-39) runs after the first render and after every render in
  which \<open>voiceNotes\<close> is a new array. Lines 99, 108 and 114 always pass a new array to
  \<open>setVoiceNotes\<close>, so a call of \<open>setVoiceNotes\<close> is followed by the effect.
\<close>

definition persist_effect :: "app \<Rightarrow> app" where
  "persist_effect s = s\<lparr>localStorage := Some (JsonText (JSON_stringify (voiceNotes s)))\<rparr>"

definition setVoiceNotes :: "VoiceNote list \<Rightarrow> app \<Rightarrow> app" where
  "setVoiceNotes ns s = commit s (persist_effect (s\<lparr>voiceNotes := ns\<rparr>))"

text \<open>
  Mounting: the first render has \<open>voiceNotes = []\<close>; the load effect runs, then the persist
  effect; when the load effect has set the state, the next render and its persist effect
  follow. An exception in the load effect or in that render is not caught by the component.
  That render calls \<^verbatim>\<open>voiceNotes.filter\<close> (line 117) on the value that
  \<^verbatim>\<open>JSON.parse\<close> returned, a TypeError when the value is no array, and reads
  \<^verbatim>\<open>note.date\<close> of every element (line 118), a TypeError when an element is
  \<^verbatim>\<open>null\<close>.
\<close>

definition mount :: "day \<Rightarrow> stored option \<Rightarrow> app outcome" where
  "mount today savedNotes =
     (case load_effect savedNotes of
        Inl e \<Rightarrow> Uncaught e
      | Inr None \<Rightarrow> Ok (persist_effect (initial today savedNotes))
      | Inr (Some v) \<Rightarrow>
          (case v of
             JArr vs \<Rightarrow>
               if JNull \<in> set vs then Uncaught TypeError
               else
                 (case notes_of_json v of
                    None \<Rightarrow> Ill_typed v
                  | Some ns \<Rightarrow>
                      if render_throws ((initial today savedNotes)\<lparr>voiceNotes := ns\<rparr>)
                      then Uncaught TypeError
                      else Ok (setVoiceNotes ns (persist_effect (initial today savedNotes))))
           | _ \<Rightarrow> Uncaught TypeError))"

text \<open>
  \<open>load\<close>: the collection the component holds once it has mounted on the day \<open>today\<close>
  with the stored item \<open>savedNotes\<close>.
\<close>

definition load :: "day \<Rightarrow> stored option \<Rightarrow> VoiceNote list outcome" where
  "load today savedNotes =
     (case mount today savedNotes of
        Ok s \<Rightarrow> Ok (voiceNotes s)
      | Uncaught e \<Rightarrow> Uncaught e
      | Ill_typed v \<Rightarrow> Ill_typed v)"

subsection \<open>Recording (lines 41-70)\<close>

text \<open>
  \<open>startRecording\<close> up to its first \<^verbatim>\<open>await\<close>: it sets the flag and asks for the
  microphone. The record button carries \<^verbatim>\<open>disabled={recording}\<close> (line 139), so a click
  reaches the handler only while the component is on the page and the flag is off.
\<close>

definition startRecording :: "app \<Rightarrow> app" where
  "startRecording s =
     s\<lparr>recording := True,
       awaiting_media := awaiting_media s
         @ [\<lparr>c_selectedDate = selectedDate s, c_voiceNotes = voiceNotes s\<rparr>]\<rparr>"

definition click_record :: "app \<Rightarrow> app" where
  "click_record s = (if mounted s \<and> \<not> recording s then startRecording s else s)"

definition remove_at :: "nat \<Rightarrow> 'a list \<Rightarrow> 'a list" where
  "remove_at i xs = take i xs @ drop (Suc i) xs"

text \<open>
  The promise of line 44 resolves: lines 45-59 create the recorder, store it in the state
  and start it (the constructor and \<^verbatim>\<open>start\<close> are taken to succeed). The promise
  rejects: line 61 reports the error, and nothing else happens.
\<close>

definition media_granted :: "nat \<Rightarrow> app \<Rightarrow> app" where
  "media_granted k s =
     (if k < length (awaiting_media s) then
        s\<lparr>awaiting_media := remove_at k (awaiting_media s),
          recorders := recorders s @ [\<lparr>listener = awaiting_media s ! k, active = True\<rparr>],
          mediaRecorder := Some (length (recorders s))\<rparr>
      else s)"

definition media_denied :: "nat \<Rightarrow> app \<Rightarrow> app" where
  "media_denied k s =
     (if k < length (awaiting_media s) then
        s\<lparr>awaiting_media := remove_at k (awaiting_media s),
          console := console s @ [(''Error starting recording:'', DeviceError)]\<rparr>
      else s)"

text \<open>
  \<^verbatim>\<open>MediaRecorder.stop()\<close>: an inactive recorder ignores it; an active one becomes
  inactive, delivers its data and fires \<open>stop\<close>, whose listener (lines 53-57) builds the
  file and calls \<open>transcribeAudio\<close>, which runs up to the \<^verbatim>\<open>fetch\<close> of line 78.
\<close>

definition recorder_stop :: "nat \<Rightarrow> blob \<Rightarrow> app \<Rightarrow> app" where
  "recorder_stop h clip s =
     (if h < length (recorders s) \<and> active (recorders s ! h) then
        s\<lparr>recorders := (recorders s)[h := (recorders s ! h)\<lparr>active := False\<rparr>],
          in_flight := in_flight s
            @ [\<lparr>continuation = listener (recorders s ! h), audioFile = clip\<rparr>]\<rparr>
      else s)"

definition stopRecording :: "blob \<Rightarrow> app \<Rightarrow> app" where
  "stopRecording clip s =
     (case mediaRecorder s of
        None \<Rightarrow> s
      | Some h \<Rightarrow> if recording s then (recorder_stop h clip s)\<lparr>recording := False\<rparr> else s)"

text \<open>The stop button exists only while the flag is on (line 148).\<close>

definition click_stop :: "blob \<Rightarrow> app \<Rightarrow> app" where
  "click_stop clip s = (if mounted s \<and> recording s then stopRecording clip s else s)"

subsection \<open>Transcription (lines 72-105)\<close>

datatype body =
    Not_json
  | Json json

datatype fetch_result =
    Network_failure
  | Response nat body

definition response_ok :: "nat \<Rightarrow> bool" where
  "response_ok status = (200 \<le> status \<and> status \<le> 299)"

text \<open>\<^verbatim>\<open>data.text\<close> (line 91): a TypeError on \<^verbatim>\<open>null\<close>, the property of an object,
  \<^verbatim>\<open>undefined\<close> on anything else.\<close>

fun data_text :: "json \<Rightarrow> error + json option" where
  "data_text JNull = Inl TypeError"
| "data_text (JObj ps) = Inr (map_of ps ''text'')"
| "data_text (JBool b) = Inr None"
| "data_text (JNum k) = Inr None"
| "data_text (JStr t) = Inr None"
| "data_text (JArr vs) = Inr None"

text \<open>
  The \<^verbatim>\<open>try\<close> block from the answer of \<^verbatim>\<open>fetch\<close> on: the array handed to
  \<open>setVoiceNotes\<close>, or the exception. \<open>now\<close> is the reading of \<^verbatim>\<open>Date.now()\<close>.
  Between the two \<^verbatim>\<open>await\<close>s of lines 78 and 90 the function neither reads nor
  writes the state, so the answer and its body arrive as one event.
\<close>

definition transcribe_try :: "closure \<Rightarrow> fetch_result \<Rightarrow> nat \<Rightarrow> error + VoiceNote list" where
  "transcribe_try c r now =
     (case r of
        Network_failure \<Rightarrow> Inl NetworkError
      | Response status b \<Rightarrow>
          if \<not> response_ok status then Inl (HttpError status)
          else
            (case b of
               Not_json \<Rightarrow> Inl SyntaxError
             | Json data \<Rightarrow>
                 (case data_text data of
                    Inl e \<Rightarrow> Inl e
                  | Inr transcribedText \<Rightarrow>
                      Inr (c_voiceNotes c
                           @ [\<lparr>note_id = toString now,
                               date = format (c_selectedDate c),
                               note_text = transcribedText,
                               completed = False\<rparr>]))))"

text \<open>
  The rest of \<open>transcribeAudio\<close>: the \<^verbatim>\<open>catch\<close> of line 100 and the
  \<^verbatim>\<open>finally\<close> of line 102. The updates of lines 99 and 103 are rendered together.
\<close>

definition transcribeAudio :: "closure \<Rightarrow> fetch_result \<Rightarrow> nat \<Rightarrow> app \<Rightarrow> app" where
  "transcribeAudio c r now s =
     (case transcribe_try c r now of
        Inr ns \<Rightarrow> setVoiceNotes ns (s\<lparr>recording := False\<rparr>)
      | Inl e \<Rightarrow>
          s\<lparr>console := console s @ [(''Error transcribing audio:'', e)],
            recording := False\<rparr>)"

definition fetch_settled :: "nat \<Rightarrow> fetch_result \<Rightarrow> nat \<Rightarrow> app \<Rightarrow> app" where
  "fetch_settled j r now s =
     (if j < length (in_flight s) then
        transcribeAudio (continuation (in_flight s ! j)) r now
          (s\<lparr>in_flight := remove_at j (in_flight s)\<rparr>)
      else s)"

subsection \<open>Events\<close>

datatype event =
    Click_record
  | Media_granted nat
  | Media_denied nat
  | Click_stop blob
  | Fetch_settled nat fetch_result nat
  | Select_date day
  | Type_search string
  | Click_toggle string
  | Click_delete string

fun step :: "event \<Rightarrow> app \<Rightarrow> app" where
  "step Click_record s = click_record s"
| "step (Media_granted k) s = media_granted k s"
| "step (Media_denied k) s = media_denied k s"
| "step (Click_stop clip) s = click_stop clip s"
| "step (Fetch_settled j r now) s = fetch_settled j r now s"
| "step (Select_date d) s = commit s (s\<lparr>selectedDate := d\<rparr>)"
| "step (Type_search t) s = commit s (s\<lparr>searchTerm := t\<rparr>)"
| "step (Click_toggle i) s = setVoiceNotes (toggleNoteCompletion i (voiceNotes s)) s"
| "step (Click_delete i) s = setVoiceNotes (deleteNote i (voiceNotes s)) s"

fun run :: "event list \<Rightarrow> app \<Rightarrow> app" where
  "run [] s = s"
| "run (e # es) s = run es (step e s)"

section \<open>Auxiliary notions\<close>

subsection \<open>Storage in step with memory\<close>

definition in_sync :: "app \<Rightarrow> bool" where
  "in_sync s = (localStorage s = Some (JsonText (JSON_stringify (voiceNotes s))))"

subsection \<open>Identifiers\<close>

definition distinct_ids :: "VoiceNote list \<Rightarrow> bool" where
  "distinct_ids ns = distinct (map note_id ns)"

text \<open>Every closure that some pending piece of work still holds.\<close>

definition closures :: "app \<Rightarrow> closure list" where
  "closures s =
     awaiting_media s @ map listener (recorders s) @ map continuation (in_flight s)"

definition ids_invariant :: "app \<Rightarrow> bool" where
  "ids_invariant s =
     (distinct_ids (voiceNotes s)
      \<and> list_all (\<lambda>c. distinct_ids (c_voiceNotes c)) (closures s))"

text \<open>
  The clock reading of an answered request is fresh when it is not yet the identifier of a
  note of the array the new note is appended to. Nothing in the code checks this.
\<close>

fun fresh_at :: "event \<Rightarrow> app \<Rightarrow> bool" where
  "fresh_at (Fetch_settled j r now) s =
     (j < length (in_flight s) \<longrightarrow>
        toString now \<notin> set (map note_id (c_voiceNotes (continuation (in_flight s ! j)))))"
| "fresh_at e s = True"

fun fresh_run :: "event list \<Rightarrow> app \<Rightarrow> bool" where
  "fresh_run [] s = True"
| "fresh_run (e # es) s = (fresh_at e s \<and> fresh_run es (step e s))"

subsection \<open>Example data\<close>

definition jan_10 :: day where
  "jan_10 = (2024, 1, 10)"

definition jan_11 :: day where
  "jan_11 = (2024, 1, 11)"

text \<open>The application mounted on 10 January 2024 with nothing stored.\<close>

definition idle_app :: app where
  "idle_app = persist_effect (initial jan_10 None)"

text \<open>A response \<^verbatim>\<open>200 {"text": t}\<close>.\<close>

definition reply :: "string \<Rightarrow> fetch_result" where
  "reply t = Response 200 (Json (JObj [(''text'', JStr t)]))"

text \<open>One recording made and stopped, its transcription request not yet answered.\<close>

definition clip_sent :: app where
  "clip_sent = run [Click_record, Media_granted 0, Click_stop []] idle_app"

definition note_a :: VoiceNote where
  "note_a = \<lparr>note_id = ''1704880800000'', date = ''2024-01-10'',
             note_text = Some (JStr ''buy milk''), completed = False\<rparr>"

text \<open>
  The note that the body \<^verbatim>\<open>{}\<close> of a 2xx response leaves behind, and the events that
  put it into the store: the calendar is moved to 11 January during the capture.
\<close>

definition note_u :: VoiceNote where
  "note_u = \<lparr>note_id = ''1700000000000'', date = ''2024-01-10'',
             note_text = None, completed = False\<rparr>"

definition untexted_insert :: "event list" where
  "untexted_insert =
     [Click_record, Media_granted 0, Select_date jan_11, Click_stop [],
      Fetch_settled 0 (Response 200 (Json (JObj []))) 1700000000000]"

definition stored_a :: "stored option" where
  "stored_a = Some (JsonText (JSON_stringify [note_a]))"

definition app_a :: app where
  "app_a = setVoiceNotes [note_a] (persist_effect (initial jan_10 stored_a))"

section \<open>Basic facts\<close>

lemmas handlers = click_record_def startRecording_def media_granted_def media_denied_def
  click_stop_def stopRecording_def recorder_stop_def fetch_settled_def transcribeAudio_def

lemma run_append: "run (xs @ ys) s = run ys (run xs s)"
  by (induction xs arbitrary: s) simp_all

lemma remove_at_last: "remove_at (length xs) (xs @ [x]) = xs"
  by (simp add: remove_at_def)

lemma set_remove_at: "set (remove_at k xs) \<subseteq> set xs"
  unfolding remove_at_def by (auto dest: in_set_takeD in_set_dropD)

lemma toString_digit: "n < 10 \<Longrightarrow> toString n = [digit n]"
  by (simp add: toString.simps)

lemma toString_more:
  "10 \<le> n \<Longrightarrow> toString n = toString (n div 10) @ [digit (n mod 10)]"
  by (subst toString.simps) simp

lemmas toString_eval = toString_digit toString_more digit_def

lemma toString_now: "toString 1700000000000 = ''1700000000000''"
  by (simp add: toString_eval)

lemma format_jan_10: "format jan_10 = ''2024-01-10''"
  by (simp add: jan_10_def toString_eval pad_def)

lemma format_jan_11: "format jan_11 = ''2024-01-11''"
  by (simp add: jan_11_def toString_eval pad_def)

section \<open>The filtered view\<close>

lemma starts_with_prefix: "starts_with xs ys = prefix ys xs"
  by (induction xs ys rule: starts_with.induct) auto

lemma includes_str_sublist: "includes_str xs ys = sublist ys xs"
  by (induction xs) (auto simp: starts_with_prefix sublist_Cons_right)

lemma filter_js_total:
  "\<forall>x\<in>set xs. p x = Inr (q x) \<Longrightarrow> filter_js p xs = Inr (filter q xs)"
  by (induction xs) simp_all

lemma filter_js_isl: "isl (filter_js p xs) = list_ex (\<lambda>x. isl (p x)) xs"
  by (induction xs) (auto split: sum.splits)

lemma filter_js_error: "filter_js p xs = Inl e \<Longrightarrow> \<exists>x\<in>set xs. p x = Inl e"
  by (induction xs) (auto split: sum.splits)

lemma well_typed_iff: "well_typed n = (\<exists>t. note_text n = Some (JStr t))"
  by (simp add: well_typed_def split: option.splits json.splits)

lemma note_matches_typed:
  "date n = d \<longrightarrow> well_typed n \<Longrightarrow>
     note_matches lc d s n
       = Inr (date n = d \<and> (\<exists>t. note_text n = Some (JStr t) \<and> sublist (lc s) (lc t)))"
  by (auto simp: well_typed_iff note_matches_def includes_str_sublist)

lemma note_matches_isl: "isl (note_matches lc d s n) = (date n = d \<and> \<not> well_typed n)"
  by (simp add: note_matches_def well_typed_def split: option.splits json.splits)

lemma note_matches_error: "note_matches lc d s n = Inl e \<Longrightarrow> e = TypeError"
  by (simp add: note_matches_def split: if_splits option.splits json.splits)

lemma filteredNotes_typed:
  "\<forall>n\<in>set ns. date n = format d \<longrightarrow> well_typed n \<Longrightarrow>
     filteredNotes lc ns d s
       = Inr (filter (\<lambda>n. date n = format d
                          \<and> (\<exists>t. note_text n = Some (JStr t) \<and> sublist (lc s) (lc t))) ns)"
  unfolding filteredNotes_def by (intro filter_js_total) (simp add: note_matches_typed)

text \<open>
  The filter throws exactly when a note of the selected day has a text that is no string,
  and what it throws is a TypeError, whatever \<open>lc\<close> is.
\<close>

lemma filteredNotes_isl:
  "isl (filteredNotes lc ns d s)
     = list_ex (\<lambda>n. date n = format d \<and> \<not> well_typed n) ns"
  by (simp add: filteredNotes_def filter_js_isl note_matches_isl)

lemma filteredNotes_error: "filteredNotes lc ns d s = Inl e \<Longrightarrow> e = TypeError"
  unfolding filteredNotes_def by (auto dest!: filter_js_error note_matches_error)

lemma filteredNotes_throws:
  "list_ex (\<lambda>n. date n = format d \<and> \<not> well_typed n) ns \<Longrightarrow>
     filteredNotes lc ns d s = Inl TypeError"
  using filteredNotes_isl[of lc ns d s] filteredNotes_error[of lc ns d s]
  by (cases "filteredNotes lc ns d s") auto

lemma render_throws_iff: "isl (render lc s) = render_throws s"
  by (simp add: render_def render_throws_def filteredNotes_isl)

lemma render_throws_error: "render_throws s \<Longrightarrow> render lc s = Inl TypeError"
  by (simp add: render_def render_throws_def filteredNotes_throws)

subsection \<open>Letter case on ASCII strings\<close>

lemma zip_letters:
  "zip capitals smalls = map (\<lambda>n. (char_of n, char_of (n + 32))) [65..<(91::nat)]"
  by (simp add: capitals_def smalls_def char_of_def bit_Suc_0_iff)

lemma pair_ex:
  "((x, y) \<in> set (zip capitals smalls))
     = (\<exists>n::nat. 65 \<le> n \<and> n < 91 \<and> x = char_of n \<and> y = char_of (n + 32))"
  by (simp only: zip_letters set_map set_upt image_iff Bex_def atLeastLessThan_iff) blast

lemma of_char_small: "n < 256 \<Longrightarrow> (of_char (char_of (n::nat) :: char) :: nat) = n"
  by (simp only: of_char_of) simp

lemma pair_iff:
  "((x, y) \<in> set (zip capitals smalls))
     = (65 \<le> (of_char x :: nat) \<and> (of_char x :: nat) \<le> 90
        \<and> y = char_of (of_char x + 32 :: nat))"
proof
  assume "(x, y) \<in> set (zip capitals smalls)"
  then obtain n :: nat where n: "65 \<le> n" "n < 91" "x = char_of n" "y = char_of (n + 32)"
    unfolding pair_ex by blast
  from n(2) have "n < 256" by arith
  then have "(of_char x :: nat) = n" unfolding n(3) by (rule of_char_small)
  with n show "65 \<le> (of_char x :: nat) \<and> (of_char x :: nat) \<le> 90
                 \<and> y = char_of (of_char x + 32 :: nat)" by arith
next
  assume a: "65 \<le> (of_char x :: nat) \<and> (of_char x :: nat) \<le> 90
                 \<and> y = char_of (of_char x + 32 :: nat)"
  have "x = char_of (of_char x :: nat)" by (simp only: char_of_char)
  with a have "65 \<le> (of_char x :: nat) \<and> (of_char x :: nat) < 91
      \<and> x = char_of (of_char x :: nat) \<and> y = char_of (of_char x + 32 :: nat)" by arith
  then show "(x, y) \<in> set (zip capitals smalls)"
    unfolding pair_ex by (rule exI)
qed

text \<open>
  Two characters are lowered to the same character exactly when they are the same letter:
  the arithmetic of \<open>ascii_lower_char\<close> agrees with the table of the specification.
\<close>

lemma same_letter_iff: "(ascii_lower_char x = ascii_lower_char y) = same_letter x y"
proof -
  let ?U = "\<lambda>c::char. 65 \<le> (of_char c :: nat) \<and> (of_char c :: nat) \<le> 90"
  let ?up = "\<lambda>c::char. (char_of (of_char c + 32 :: nat) :: char)"
  have code: "(of_char (?up c) :: nat) = of_char c + 32" if "?U c" for c
  proof -
    from that have "(of_char c :: nat) + 32 < 256" by arith
    then show ?thesis by (rule of_char_small)
  qed
  have f: "ascii_lower_char c = (if ?U c then ?up c else c)" for c
    by (simp only: ascii_lower_char_def Let_def)
  have s: "same_letter x y = (x = y \<or> (?U x \<and> y = ?up x) \<or> (?U y \<and> x = ?up y))"
    by (simp only: same_letter_def pair_iff conj_assoc)
  have notU: "\<not> ?U (?up c)" if "?U c" for c
    using code[OF that] that by arith
  have inj: "(?up x = ?up y) = (x = y)" if "?U x" "?U y"
  proof
    assume "?up x = ?up y"
    then have "(of_char (?up x) :: nat) = of_char (?up y)" by (rule arg_cong)
    then have "(of_char x :: nat) = of_char y" using code[OF that(1)] code[OF that(2)] by arith
    then show "x = y" by (simp only: of_char_eq_iff)
  next
    assume "x = y" then show "?up x = ?up y" by (rule arg_cong)
  qed
  consider (uu) "?U x" "?U y" | (un) "?U x" "\<not> ?U y" | (nu) "\<not> ?U x" "?U y"
    | (nn) "\<not> ?U x" "\<not> ?U y" by blast
  then show ?thesis
  proof cases
    case uu
    have "y \<noteq> ?up x" using notU[OF uu(1)] uu(2) by metis
    moreover have "x \<noteq> ?up y" using notU[OF uu(2)] uu(1) by metis
    ultimately show ?thesis using uu inj[OF uu] by (simp only: f s if_True simp_thms)
  next
    case un
    have "x \<noteq> y" using un by metis
    then show ?thesis using un
      by (simp only: f s if_True if_False simp_thms) (rule eq_commute)
  next
    case nu
    have "x \<noteq> y" using nu by metis
    then show ?thesis using nu by (simp only: f s if_True if_False simp_thms)
  next
    case nn
    then show ?thesis by (simp only: f s if_False simp_thms)
  qed
qed

lemma map_eq_iff_list_all2:
  "(map f a = map f b) = list_all2 (\<lambda>x y. f x = f y) a b"
proof (induction a arbitrary: b)
  case Nil
  show ?case by simp
next
  case (Cons x a)
  then show ?case by (cases b) simp_all
qed

lemma ascii_lower_eq: "(ascii_lower a = ascii_lower b) = same_ignoring_case a b"
  by (simp only: ascii_lower_def same_ignoring_case_def map_eq_iff_list_all2 same_letter_iff)

lemma map_eq_middle: "map f t = p @ m @ q \<Longrightarrow> \<exists>u w v. t = u @ w @ v \<and> map f w = m"
  by (metis map_eq_append_conv)

lemma sublist_ascii_lower:
  "sublist (ascii_lower s) (ascii_lower t) = contains_ignoring_case t s"
  unfolding sublist_def contains_ignoring_case_def ascii_lower_eq[symmetric]
proof
  assume "\<exists>ps ss. ascii_lower t = ps @ ascii_lower s @ ss"
  then obtain ps ss where "map ascii_lower_char t = ps @ ascii_lower s @ ss"
    by (auto simp: ascii_lower_def)
  from map_eq_middle[OF this]
  show "\<exists>u w v. t = u @ w @ v \<and> ascii_lower w = ascii_lower s"
    by (simp add: ascii_lower_def)
next
  assume "\<exists>u w v. t = u @ w @ v \<and> ascii_lower w = ascii_lower s"
  then obtain u w v where "t = u @ w @ v" "ascii_lower w = ascii_lower s" by blast
  then have "ascii_lower t = ascii_lower u @ ascii_lower s @ ascii_lower v"
    by (simp add: ascii_lower_def)
  then show "\<exists>ps ss. ascii_lower t = ps @ ascii_lower s @ ss" by blast
qed

lemma filteredNotes_ascii:
  assumes typed: "\<forall>n\<in>set ns. date n = format d \<longrightarrow> well_typed n"
    and lower: "lowers_ascii lc"
    and search: "ascii s"
    and texts: "\<forall>n\<in>set ns. \<forall>t. note_text n = Some (JStr t) \<longrightarrow> ascii t"
  shows "filteredNotes lc ns d s
           = Inr (filter (\<lambda>n. date n = format d \<and> has_text n s) ns)"
proof -
  have "(\<exists>t. note_text n = Some (JStr t) \<and> sublist (lc s) (lc t)) = has_text n s"
    if "n \<in> set ns" for n
  proof -
    have "sublist (lc s) (lc t) = contains_ignoring_case t s"
      if "note_text n = Some (JStr t)" for t
    proof -
      have "ascii t" using texts \<open>n \<in> set ns\<close> that by blast
      then have "lc t = ascii_lower t" "lc s = ascii_lower s"
        using lower search by (simp_all add: lowers_ascii_def)
      then show ?thesis by (simp only: sublist_ascii_lower)
    qed
    then show ?thesis by (auto simp: has_text_def)
  qed
  then have "filter (\<lambda>n. date n = format d
                          \<and> (\<exists>t. note_text n = Some (JStr t) \<and> sublist (lc s) (lc t))) ns
             = filter (\<lambda>n. date n = format d \<and> has_text n s) ns"
    by (intro filter_cong) auto
  with filteredNotes_typed[OF typed, of lc s] show ?thesis by simp
qed

section \<open>Rendering\<close>

text \<open>A store of well-typed notes renders, whatever day and search term are selected.\<close>

lemma render_typed:
  "\<forall>n\<in>set (voiceNotes s). well_typed n \<Longrightarrow> \<not> render_throws s"
  by (auto simp: render_throws_def list_ex_iff)

lemma commit_typed:
  "mounted s \<Longrightarrow> \<forall>n\<in>set (voiceNotes s'). well_typed n \<Longrightarrow> commit s s' = s'"
  using render_typed[of s'] by (simp add: commit_def)

lemma commit_cases: "commit s s' = s' \<or> commit s s' = s \<or> commit s s' = s\<lparr>mounted := False\<rparr>"
  by (simp add: commit_def)

lemma setVoiceNotes_typed:
  "mounted s \<Longrightarrow> \<forall>n\<in>set ns. well_typed n \<Longrightarrow>
     setVoiceNotes ns s = persist_effect (s\<lparr>voiceNotes := ns\<rparr>)"
  by (simp add: setVoiceNotes_def commit_typed persist_effect_def)

lemma run_select_dates:
  "mounted s \<Longrightarrow> \<forall>n\<in>set (voiceNotes s). well_typed n \<Longrightarrow>
     run (map Select_date ds) s = s\<lparr>selectedDate := last (selectedDate s # ds)\<rparr>"
proof (induction ds arbitrary: s)
  case Nil
  show ?case by simp
next
  case (Cons d ds)
  have "run (map Select_date (d # ds)) s = run (map Select_date ds) (s\<lparr>selectedDate := d\<rparr>)"
    using Cons.prems by (simp add: commit_typed)
  also have "\<dots> = s\<lparr>selectedDate := d\<rparr>\<lparr>selectedDate := last (d # ds)\<rparr>"
    using Cons.prems by (subst Cons.IH) simp_all
  finally show ?case by simp
qed

subsection \<open>Evaluating the examples\<close>

lemma typed_examples:
  "well_typed \<lparr>note_id = i, date = d, note_text = Some (JStr t), completed = c\<rparr>"
  "\<not> well_typed \<lparr>note_id = i, date = d, note_text = None, completed = c\<rparr>"
  by (simp_all add: well_typed_def)

lemmas eval = handlers setVoiceNotes_def persist_effect_def commit_def render_throws_def
  typed_examples remove_at_def transcribe_try_def response_ok_def reply_def
  format_jan_10 format_jan_11 toString_now

lemma idle_app_eq:
  "idle_app =
     \<lparr>selectedDate = jan_10, voiceNotes = [], recording = False, mediaRecorder = None,
      searchTerm = [], localStorage = Some (JsonText (JSON_stringify [])), console = [],
      awaiting_media = [], recorders = [], in_flight = [], mounted = True\<rparr>"
  by (simp add: idle_app_def initial_def persist_effect_def)

lemma clip_sent_eq:
  "clip_sent =
     \<lparr>selectedDate = jan_10, voiceNotes = [], recording = False, mediaRecorder = Some 0,
      searchTerm = [], localStorage = Some (JsonText (JSON_stringify [])), console = [],
      awaiting_media = [],
      recorders =
        [\<lparr>listener = \<lparr>c_selectedDate = jan_10, c_voiceNotes = []\<rparr>, active = False\<rparr>],
      in_flight =
        [\<lparr>continuation = \<lparr>c_selectedDate = jan_10, c_voiceNotes = []\<rparr>,
          audioFile = []\<rparr>],
      mounted = True\<rparr>"
  by (simp add: clip_sent_def idle_app_eq eval)

lemma app_a_eq:
  "app_a =
     \<lparr>selectedDate = jan_10, voiceNotes = [note_a], recording = False, mediaRecorder = None,
      searchTerm = [], localStorage = stored_a, console = [],
      awaiting_media = [], recorders = [], in_flight = [], mounted = True\<rparr>"
  by (simp add: app_a_def initial_def stored_a_def note_a_def setVoiceNotes_typed
      typed_examples persist_effect_def)

lemma untexted_insert_eq:
  "run untexted_insert idle_app =
     \<lparr>selectedDate = jan_11, voiceNotes = [note_u], recording = False,
      mediaRecorder = Some 0, searchTerm = [],
      localStorage = Some (JsonText (JSON_stringify [note_u])), console = [],
      awaiting_media = [],
      recorders =
        [\<lparr>listener = \<lparr>c_selectedDate = jan_10, c_voiceNotes = []\<rparr>, active = False\<rparr>],
      in_flight = [], mounted = True\<rparr>"
  by (simp add: untexted_insert_def note_u_def idle_app_eq eval)

section \<open>The query\<close>

text \<open>
  Claim C7, as the code has it. Take a store in which every note of the given day has a
  string as text. The filter returns, in the order of the store, the notes of that day
  whose lowered text contains the lowered search string, where lowering is
  \<^verbatim>\<open>toLowerCase\<close>; as \<^verbatim>\<open>toLowerCase\<close> leaves the empty string empty, the empty search
  string keeps every note of the day. Where the search string and the texts are ASCII, on
  which \<^verbatim>\<open>toLowerCase\<close> lowers the letters A to Z and nothing else, these are the notes
  whose text contains a stretch equal to the search string up to the case of its letters.
  The filter is a function of its arguments and changes nothing.
\<close>

theorem query_filters:
  assumes "\<forall>n\<in>set ns. date n = format d \<longrightarrow> well_typed n"
  shows "filteredNotes lc ns d s
           = Inr (filter (\<lambda>n. date n = format d
                    \<and> (\<exists>t. note_text n = Some (JStr t) \<and> sublist (lc s) (lc t))) ns)
       \<and> (lc [] = [] \<longrightarrow> filteredNotes lc ns d [] = Inr (filter (\<lambda>n. date n = format d) ns))
       \<and> (lowers_ascii lc \<and> ascii s
            \<and> (\<forall>n\<in>set ns. \<forall>t. note_text n = Some (JStr t) \<longrightarrow> ascii t) \<longrightarrow>
          filteredNotes lc ns d s
            = Inr (filter (\<lambda>n. date n = format d \<and> has_text n s) ns))"
proof (intro conjI impI)
  show "filteredNotes lc ns d s
          = Inr (filter (\<lambda>n. date n = format d
                   \<and> (\<exists>t. note_text n = Some (JStr t) \<and> sublist (lc s) (lc t))) ns)"
    using assms by (rule filteredNotes_typed)
next
  assume empty: "lc [] = []"
  have "filter (\<lambda>n. date n = format d
                  \<and> (\<exists>t. note_text n = Some (JStr t) \<and> sublist (lc []) (lc t))) ns
        = filter (\<lambda>n. date n = format d) ns"
    using assms by (intro filter_cong) (auto simp: empty well_typed_iff)
  with filteredNotes_typed[OF assms, of lc "[]"]
  show "filteredNotes lc ns d [] = Inr (filter (\<lambda>n. date n = format d) ns)" by simp
next
  assume "lowers_ascii lc \<and> ascii s
            \<and> (\<forall>n\<in>set ns. \<forall>t. note_text n = Some (JStr t) \<longrightarrow> ascii t)"
  with assms show "filteredNotes lc ns d s
                     = Inr (filter (\<lambda>n. date n = format d \<and> has_text n s) ns)"
    by (intro filteredNotes_ascii) simp_all
qed

text \<open>
  The scenario of the specification, with the ASCII lowering in the place of
  \<^verbatim>\<open>toLowerCase\<close>: the note "buy milk" of 10 January is found by the search term MILK
  and by the empty search term on that day, and not on the day after.
\<close>

theorem query_filters_witness:
  "well_typed note_a
   \<and> ascii ''MILK'' \<and> ascii ''buy milk''
   \<and> has_text note_a ''MILK''
   \<and> filteredNotes ascii_lower [note_a] jan_10 ''MILK'' = Inr [note_a]
   \<and> filteredNotes ascii_lower [note_a] jan_10 [] = Inr [note_a]
   \<and> filteredNotes ascii_lower [note_a] jan_11 ''milk'' = Inr []"
proof -
  have typed: "well_typed note_a" by (simp add: well_typed_def note_a_def)
  then have h: "\<forall>n\<in>set [note_a]. date n = format d \<longrightarrow> well_typed n" for d by simp
  have a1: "ascii ''MILK''" and a2: "ascii ''buy milk''" and a3: "ascii ''milk''"
    by (simp_all add: ascii_def)
  have low: "lowers_ascii ascii_lower" by (simp add: lowers_ascii_def)
  have texts: "\<forall>n\<in>set [note_a]. \<forall>t. note_text n = Some (JStr t) \<longrightarrow> ascii t"
    using a2 by (simp add: note_a_def)
  have "same_ignoring_case ''milk'' ''MILK''"
    by (simp add: same_ignoring_case_def same_letter_def capitals_def smalls_def)
  then have "contains_ignoring_case (''buy '' @ ''milk'' @ []) ''MILK''"
    unfolding contains_ignoring_case_def by blast
  then have found: "has_text note_a ''MILK''" by (simp add: has_text_def note_a_def)
  have day: "date note_a = format jan_10" "date note_a \<noteq> format jan_11"
    by (simp_all add: note_a_def format_jan_10 format_jan_11)
  have empty: "ascii_lower [] = []" by (simp add: ascii_lower_def)
  from query_filters[OF h, where d = jan_10 and lc = ascii_lower and s = "''MILK''",
         THEN conjunct2]
       query_filters[OF h, where d = jan_11 and lc = ascii_lower and s = "''milk''",
         THEN conjunct2]
  show ?thesis using typed a1 a2 a3 low texts found day empty by simp
qed

text \<open>
  The store that the body \<^verbatim>\<open>{}\<close> leaves behind holds a note of 10 January without a
  text. The query for that day returns no list of notes: it throws, and it does so whatever
  \<^verbatim>\<open>toLowerCase\<close> returns (lemma \<open>filteredNotes_throws\<close>).
\<close>

theorem query_throws_counterexample:
  "voiceNotes (run untexted_insert idle_app) = [note_u]
   \<and> filteredNotes ascii_lower (voiceNotes (run untexted_insert idle_app)) jan_10 []
       = Inl TypeError"
  by (simp add: untexted_insert_eq filteredNotes_def note_matches_def note_u_def
      format_jan_10)

section \<open>The note store: toggle, persistence\<close>

subsection \<open>Toggling\<close>

lemma toggle_ids: "map note_id (toggleNoteCompletion i ns) = map note_id ns"
  by (induction ns) (simp_all add: toggleNoteCompletion_def)

lemma toggle_twice: "toggleNoteCompletion i (toggleNoteCompletion i ns) = ns"
  by (induction ns) (simp_all add: toggleNoteCompletion_def)

lemma toggle_fixed: "(toggleNoteCompletion i ns = ns) = (i \<notin> set (map note_id ns))"
proof (induction ns)
  case Nil
  show ?case by (simp add: toggleNoteCompletion_def)
next
  case (Cons n ns)
  have "n\<lparr>completed := \<not> completed n\<rparr> \<noteq> n"
    by (metis VoiceNote.select_convs(4) VoiceNote.surjective VoiceNote.update_convs(4))
  with Cons show ?case by (auto simp: toggleNoteCompletion_def)
qed

text \<open>Toggling changes neither the dates nor the texts, so it cannot make a render throw.\<close>

lemma render_toggle:
  "render_throws (s\<lparr>voiceNotes := toggleNoteCompletion i ns\<rparr>)
   = render_throws (s\<lparr>voiceNotes := ns\<rparr>)"
  by (induction ns) (simp_all add: render_throws_def toggleNoteCompletion_def well_typed_def)

lemma render_cong:
  "voiceNotes a = voiceNotes b \<Longrightarrow> selectedDate a = selectedDate b \<Longrightarrow>
     render_throws a = render_throws b"
  by (simp add: render_throws_def)

lemma toggle_step_twice:
  "voiceNotes (step (Click_toggle i) (step (Click_toggle i) s)) = voiceNotes s"
proof (cases "mounted s")
  case False
  then show ?thesis by (simp add: setVoiceNotes_def commit_def)
next
  case True
  let ?t = "persist_effect (s\<lparr>voiceNotes := toggleNoteCompletion i (voiceNotes s)\<rparr>)"
  show ?thesis
  proof (cases "render_throws ?t")
    case True
    with \<open>mounted s\<close> show ?thesis by (simp add: setVoiceNotes_def commit_def)
  next
    case False
    with True have first: "step (Click_toggle i) s = ?t"
      by (simp add: setVoiceNotes_def commit_def)
    have "render_throws
            (persist_effect (?t\<lparr>voiceNotes := toggleNoteCompletion i (voiceNotes ?t)\<rparr>))
          = render_throws (s\<lparr>voiceNotes :=
                       toggleNoteCompletion i (toggleNoteCompletion i (voiceNotes s))\<rparr>)"
      by (rule render_cong) (simp_all add: persist_effect_def)
    moreover have "render_throws ?t
                   = render_throws (s\<lparr>voiceNotes := toggleNoteCompletion i (voiceNotes s)\<rparr>)"
      by (rule render_cong) (simp_all add: persist_effect_def)
    ultimately
    have "render_throws
            (persist_effect (?t\<lparr>voiceNotes := toggleNoteCompletion i (voiceNotes ?t)\<rparr>))
          = render_throws ?t"
      using render_toggle[where s = s and i = i and ns = "toggleNoteCompletion i (voiceNotes s)"]
      by simp
    with False have
      "\<not> render_throws
           (persist_effect (?t\<lparr>voiceNotes := toggleNoteCompletion i (voiceNotes ?t)\<rparr>))"
      by simp
    with True show ?thesis unfolding first
      by (simp add: setVoiceNotes_def commit_def persist_effect_def toggle_twice)
  qed
qed

text \<open>
  Claim C9. Toggling the same identifier twice gives back the store, whether the identifier
  occurs in it or not: one call negates \<open>completed\<close> in the notes with that identifier and
  leaves the other notes alone, and it changes nothing exactly when no note has the identifier.
  Two clicks on the toggle button of a note leave the collection of the component as it was.
\<close>

theorem toggle_involution:
  "toggleNoteCompletion i (toggleNoteCompletion i ns) = ns
   \<and> map completed (toggleNoteCompletion i ns)
       = map (\<lambda>n. if note_id n = i then \<not> completed n else completed n) ns
   \<and> (toggleNoteCompletion i ns = ns) = (i \<notin> set (map note_id ns))
   \<and> voiceNotes (step (Click_toggle i) (step (Click_toggle i) s)) = voiceNotes s"
proof -
  have "map completed (toggleNoteCompletion i ns)
        = map (\<lambda>n. if note_id n = i then \<not> completed n else completed n) ns"
    by (induction ns) (simp_all add: toggleNoteCompletion_def)
  then show ?thesis
    by (simp add: toggle_twice toggle_fixed toggle_step_twice del: step.simps)
qed

subsection \<open>Loading and persisting\<close>

lemma note_roundtrip: "note_of_json (json_of_note n) = Some n"
  by (cases "note_text n") (simp_all add: json_of_note_def)

lemma those_roundtrip: "those (map note_of_json (map json_of_note ns)) = Some ns"
  by (induction ns) (simp_all add: note_roundtrip)

lemma notes_roundtrip: "notes_of_json (JSON_stringify ns) = Some ns"
  unfolding JSON_stringify_def notes_of_json.simps by (rule those_roundtrip)

text \<open>
  Mounting on a stored collection: the render after the load effect throws when a note of
  the current day has a text that is no string; otherwise the component holds the collection.
\<close>

lemma mount_stringify:
  "mount today (Some (JsonText (JSON_stringify ns)))
     = (if list_ex (\<lambda>n. date n = format today \<and> \<not> well_typed n) ns
        then Uncaught TypeError
        else Ok (persist_effect
                  ((initial today (Some (JsonText (JSON_stringify ns))))\<lparr>voiceNotes := ns\<rparr>)))"
proof -
  have "notes_of_json (JArr (map json_of_note ns)) = Some ns"
    using notes_roundtrip[of ns] by (simp only: JSON_stringify_def)
  moreover have "JNull \<notin> set (map json_of_note ns)"
    by (auto simp: json_of_note_def)
  ultimately show ?thesis
    by (simp add: mount_def load_effect_def JSON_stringify_def setVoiceNotes_def commit_def
        render_throws_def initial_def persist_effect_def del: notes_of_json.simps)
qed

lemma load_stringify:
  "load today (Some (JsonText (JSON_stringify ns)))
     = (if list_ex (\<lambda>n. date n = format today \<and> \<not> well_typed n) ns
        then Uncaught TypeError else Ok ns)"
  by (simp add: load_def mount_stringify persist_effect_def)

lemma load_no_array: "\<forall>vs. v \<noteq> JArr vs \<Longrightarrow> load today (Some (JsonText v)) = Uncaught TypeError"
  by (cases v) (simp_all add: load_def mount_def load_effect_def)

text \<open>
  Claim C2, as the code has it. Absent storage, and the empty string, give the empty
  collection. A stored collection is given back as it was written when its notes of the
  current day have strings as texts (so whenever all its notes do); when one of them has
  not, the render that follows the load effect throws a TypeError. A stored string that is
  not JSON makes the load effect throw a SyntaxError, and a stored JSON text that denotes no
  array makes the following render throw a TypeError. Nothing catches these errors: the
  component does not mount.
\<close>

theorem load_cases:
  assumes "\<forall>vs. v \<noteq> JArr vs"
  shows "load today None = Ok []
       \<and> load today (Some EmptyText) = Ok []
       \<and> load today (Some (JsonText (JSON_stringify ns)))
           = (if list_ex (\<lambda>n. date n = format today \<and> \<not> well_typed n) ns
              then Uncaught TypeError else Ok ns)
       \<and> ((\<forall>n\<in>set ns. well_typed n) \<longrightarrow>
            load today (Some (JsonText (JSON_stringify ns))) = Ok ns)
       \<and> load today (Some Unparseable) = Uncaught SyntaxError
       \<and> load today (Some (JsonText v)) = Uncaught TypeError"
proof -
  have "load today None = Ok []" "load today (Some EmptyText) = Ok []"
    "load today (Some Unparseable) = Uncaught SyntaxError"
    by (simp_all add: load_def mount_def load_effect_def persist_effect_def initial_def)
  moreover have "load today (Some (JsonText (JSON_stringify ns))) = Ok ns"
    if "\<forall>n\<in>set ns. well_typed n"
    using that by (auto simp: load_stringify list_ex_iff)
  ultimately show ?thesis
    using load_no_array[OF assms, of today] by (simp add: load_stringify)
qed

text \<open>
  The stored note "buy milk" is loaded; the stored text \<^verbatim>\<open>null\<close> makes the render
  throw.
\<close>

theorem load_cases_witness:
  "well_typed note_a
   \<and> load jan_10 stored_a = Ok [note_a]
   \<and> load jan_10 (Some (JsonText JNull)) = Uncaught TypeError"
proof -
  have typed: "well_typed note_a" by (simp add: well_typed_def note_a_def)
  have "\<forall>vs. JNull \<noteq> JArr vs" by simp
  from load_cases[OF this, of jan_10 "[note_a]"] show ?thesis
    using typed by (simp add: stored_a_def)
qed

text \<open>
  Corrupt storage is not treated like absent storage: neither a stored string that is no
  JSON text nor the stored text \<^verbatim>\<open>null\<close> gives the empty collection.
\<close>

theorem corrupt_storage_counterexample:
  "load jan_10 None = Ok []
   \<and> load jan_10 (Some Unparseable) = Uncaught SyntaxError
   \<and> load jan_10 (Some Unparseable) \<noteq> load jan_10 None
   \<and> load jan_10 (Some (JsonText JNull)) = Uncaught TypeError"
  by (simp add: load_def mount_def load_effect_def persist_effect_def initial_def)

lemma in_sync_commit: "in_sync s \<Longrightarrow> in_sync s' \<Longrightarrow> in_sync (commit s s')"
  using commit_cases[of s s'] by (auto simp: in_sync_def)

lemma in_sync_setVoiceNotes: "in_sync s \<Longrightarrow> in_sync (setVoiceNotes ns s)"
  unfolding setVoiceNotes_def
  by (rule in_sync_commit) (simp_all add: in_sync_def persist_effect_def)

lemma in_sync_update:
  "in_sync (s\<lparr>recording := b\<rparr>) = in_sync s"
  "in_sync (s\<lparr>selectedDate := d\<rparr>) = in_sync s"
  "in_sync (s\<lparr>searchTerm := t\<rparr>) = in_sync s"
  "in_sync (s\<lparr>in_flight := q\<rparr>) = in_sync s"
  "in_sync (s\<lparr>console := l\<rparr>) = in_sync s"
  by (simp_all add: in_sync_def)

lemma in_sync_step:
  assumes "in_sync s"
  shows "in_sync (step e s)"
proof (cases e)
  case Click_record
  with assms show ?thesis by (simp add: in_sync_def click_record_def startRecording_def)
next
  case (Media_granted k)
  with assms show ?thesis by (simp add: in_sync_def media_granted_def)
next
  case (Media_denied k)
  with assms show ?thesis by (simp add: in_sync_def media_denied_def)
next
  case (Click_stop clip)
  with assms show ?thesis
    by (auto simp: in_sync_def click_stop_def stopRecording_def recorder_stop_def
        split: option.splits)
next
  case (Fetch_settled j r now)
  with assms show ?thesis
    by (simp add: fetch_settled_def transcribeAudio_def in_sync_setVoiceNotes in_sync_update
        split: sum.splits)
next
  case (Select_date d)
  with assms show ?thesis by (simp add: in_sync_commit in_sync_update)
next
  case (Type_search t)
  with assms show ?thesis by (simp add: in_sync_commit in_sync_update)
next
  case (Click_toggle i)
  with assms show ?thesis by (simp add: in_sync_setVoiceNotes)
next
  case (Click_delete i)
  with assms show ?thesis by (simp add: in_sync_setVoiceNotes)
qed

lemma in_sync_run: "in_sync s \<Longrightarrow> in_sync (run es s)"
  by (induction es arbitrary: s) (simp_all add: in_sync_step del: step.simps)

lemma in_sync_mount: "mount today item = Ok s \<Longrightarrow> in_sync s"
proof -
  assume m: "mount today item = Ok s"
  have base: "in_sync (persist_effect (initial today item))"
    by (simp add: in_sync_def persist_effect_def)
  from m show ?thesis
    by (auto simp: mount_def base in_sync_setVoiceNotes
        split: sum.splits option.splits json.splits if_splits)
qed

text \<open>
  Claim C8, as the code has it. Start from any stored content the component mounts on, and
  let any finite sequence of events happen (insertions by transcription, deletions, toggles,
  and all the others). What is then in storage is the serialisation of the collection in
  memory; and when no note of that collection filed under the day of the reload has a text
  that is no string, mounting again on what is in storage gives the collection that is in
  memory.
\<close>

theorem persist_reload_roundtrip:
  assumes "mount today item = Ok s0"
    and "\<forall>n\<in>set (voiceNotes (run es s0)). date n = format day \<longrightarrow> well_typed n"
  shows "localStorage (run es s0) = Some (JsonText (JSON_stringify (voiceNotes (run es s0))))
       \<and> load day (localStorage (run es s0)) = Ok (voiceNotes (run es s0))"
proof -
  have sync: "localStorage (run es s0)
                = Some (JsonText (JSON_stringify (voiceNotes (run es s0))))"
    using in_sync_run[OF in_sync_mount[OF assms(1)], of es] by (simp add: in_sync_def)
  have "\<not> list_ex (\<lambda>n. date n = format day \<and> \<not> well_typed n) (voiceNotes (run es s0))"
    using assms(2) by (auto simp: list_ex_iff)
  then have "load day (Some (JsonText (JSON_stringify (voiceNotes (run es s0)))))
             = Ok (voiceNotes (run es s0))"
    by (simp add: load_stringify)
  with sync show ?thesis by simp
qed

text \<open>Every collection of well-typed notes is the content of some storage the component
  mounts on.\<close>

lemma every_store_mounts:
  assumes "\<forall>n\<in>set ns. well_typed n"
  shows "mount today (Some (JsonText (JSON_stringify ns)))
           = Ok (persist_effect
                  ((initial today (Some (JsonText (JSON_stringify ns))))\<lparr>voiceNotes := ns\<rparr>))"
  using assms by (auto simp: mount_stringify list_ex_iff)

lemma mount_stored_a: "mount jan_10 stored_a = Ok app_a"
  unfolding stored_a_def
  by (subst every_store_mounts)
     (simp_all add: note_a_def typed_examples app_a_eq stored_a_def initial_def
        persist_effect_def)

text \<open>
  One stored note; it is toggled, a second note is recorded and transcribed, and the first
  is deleted. The page is loaded again on the same day.
\<close>

theorem persist_reload_roundtrip_witness:
  "mount jan_10 stored_a = Ok app_a
   \<and> voiceNotes
        (run [Click_toggle ''1704880800000'', Click_record, Media_granted 0, Click_stop [],
              Fetch_settled 0 (reply ''call bob'') 1700000000000,
              Click_delete ''1704880800000''] app_a)
     = [\<lparr>note_id = ''1700000000000'', date = ''2024-01-10'',
         note_text = Some (JStr ''call bob''), completed = False\<rparr>]
   \<and> load jan_10 (localStorage
        (run [Click_toggle ''1704880800000'', Click_record, Media_granted 0, Click_stop [],
              Fetch_settled 0 (reply ''call bob'') 1700000000000,
              Click_delete ''1704880800000''] app_a))
     = Ok [\<lparr>note_id = ''1700000000000'', date = ''2024-01-10'',
            note_text = Some (JStr ''call bob''), completed = False\<rparr>]"
proof -
  have final: "voiceNotes
          (run [Click_toggle ''1704880800000'', Click_record, Media_granted 0, Click_stop [],
                Fetch_settled 0 (reply ''call bob'') 1700000000000,
                Click_delete ''1704880800000''] app_a)
        = [\<lparr>note_id = ''1700000000000'', date = ''2024-01-10'',
            note_text = Some (JStr ''call bob''), completed = False\<rparr>]"
    by (simp add: app_a_eq eval note_a_def toggleNoteCompletion_def deleteNote_def)
  have typed: "\<forall>n\<in>set (voiceNotes
          (run [Click_toggle ''1704880800000'', Click_record, Media_granted 0, Click_stop [],
                Fetch_settled 0 (reply ''call bob'') 1700000000000,
                Click_delete ''1704880800000''] app_a)). date n = format jan_10 \<longrightarrow> well_typed n"
    by (simp only: final) (simp add: typed_examples)
  from persist_reload_roundtrip[OF mount_stored_a typed, THEN conjunct2] mount_stored_a final
  show ?thesis by (simp only:)
qed

text \<open>
  The store that the body \<^verbatim>\<open>{}\<close> leaves behind holds a note of 10 January without a
  text, and so does its stored copy. When the page is loaded again on 10 January, the render
  that follows the load effect throws: the collection is not reconstructed.
\<close>

theorem reload_throws_counterexample:
  "mount jan_10 None = Ok idle_app
   \<and> voiceNotes (run untexted_insert idle_app) = [note_u]
   \<and> localStorage (run untexted_insert idle_app) = Some (JsonText (JSON_stringify [note_u]))
   \<and> load jan_10 (localStorage (run untexted_insert idle_app)) = Uncaught TypeError"
proof -
  have "mount jan_10 None = Ok idle_app"
    by (simp add: mount_def load_effect_def idle_app_def)
  moreover have "load jan_10 (Some (JsonText (JSON_stringify [note_u]))) = Uncaught TypeError"
    by (simp add: load_stringify note_u_def typed_examples format_jan_10)
  ultimately show ?thesis by (simp add: untexted_insert_eq)
qed

section \<open>Transcription\<close>

subsection \<open>Responses that are not 2xx\<close>

text \<open>
  Claim C6. When a pending transcription request is answered with a status outside 200-299,
  the \<^verbatim>\<open>try\<close> block ends in the error that carries the status, \<open>setVoiceNotes\<close> is not
  called, so the collection and its stored copy stay as they were, and the error is written to
  the console.
\<close>

theorem http_error_abandoned:
  assumes "j < length (in_flight s)" and "\<not> response_ok status"
  shows "transcribe_try (continuation (in_flight s ! j)) (Response status b) now
           = Inl (HttpError status)
       \<and> voiceNotes (step (Fetch_settled j (Response status b) now) s) = voiceNotes s
       \<and> localStorage (step (Fetch_settled j (Response status b) now) s) = localStorage s
       \<and> console (step (Fetch_settled j (Response status b) now) s)
           = console s @ [(''Error transcribing audio:'', HttpError status)]"
  using assms by (simp add: fetch_settled_def transcribeAudio_def transcribe_try_def)

text \<open>The scenario of the specification: the pending request is answered with 401.\<close>

theorem http_error_abandoned_witness:
  "0 < length (in_flight clip_sent)
   \<and> \<not> response_ok 401
   \<and> voiceNotes
        (step (Fetch_settled 0 (Response 401 (Json (JObj [(''error'', JStr ''bad key'')])))
                 1700000000000) clip_sent) = []
   \<and> localStorage
        (step (Fetch_settled 0 (Response 401 (Json (JObj [(''error'', JStr ''bad key'')])))
                 1700000000000) clip_sent) = Some (JsonText (JSON_stringify []))
   \<and> console
        (step (Fetch_settled 0 (Response 401 (Json (JObj [(''error'', JStr ''bad key'')])))
                 1700000000000) clip_sent)
       = [(''Error transcribing audio:'', HttpError 401)]"
proof -
  have h1: "0 < length (in_flight clip_sent)" by (simp add: clip_sent_eq)
  have h2: "\<not> response_ok 401" by (simp add: response_ok_def)
  have sel: "voiceNotes clip_sent = []" "console clip_sent = []"
    "localStorage clip_sent = Some (JsonText (JSON_stringify []))"
    by (simp_all add: clip_sent_eq)
  from http_error_abandoned[OF h1 h2] show ?thesis
    using h1 h2 by (simp add: sel)
qed

subsection \<open>Bodies of a 2xx response\<close>

text \<open>
  Claim C3, as the code has it. When a pending request is answered with a 2xx status and a
  body that is not JSON, or that is the JSON value \<^verbatim>\<open>null\<close>, the \<^verbatim>\<open>try\<close> block throws
  (a SyntaxError from \<^verbatim>\<open>response.json()\<close>, a TypeError from \<^verbatim>\<open>data.text\<close>); the error is
  written to the console, no note is inserted, and the collection and its stored copy stay as
  they were.
\<close>

theorem unparseable_body_abandoned:
  assumes "j < length (in_flight s)" and "response_ok status"
    and "b = Not_json \<or> b = Json JNull"
  shows "voiceNotes (step (Fetch_settled j (Response status b) now) s) = voiceNotes s
       \<and> localStorage (step (Fetch_settled j (Response status b) now) s) = localStorage s
       \<and> console (step (Fetch_settled j (Response status b) now) s)
           = console s @ [(''Error transcribing audio:'',
                           if b = Not_json then SyntaxError else TypeError)]"
  using assms by (auto simp: fetch_settled_def transcribeAudio_def transcribe_try_def)

theorem unparseable_body_abandoned_witness:
  "0 < length (in_flight clip_sent)
   \<and> response_ok 200
   \<and> voiceNotes (step (Fetch_settled 0 (Response 200 Not_json) 1700000000000) clip_sent) = []
   \<and> localStorage (step (Fetch_settled 0 (Response 200 Not_json) 1700000000000) clip_sent)
       = Some (JsonText (JSON_stringify []))
   \<and> console (step (Fetch_settled 0 (Response 200 Not_json) 1700000000000) clip_sent)
       = [(''Error transcribing audio:'', SyntaxError)]"
proof -
  have h1: "0 < length (in_flight clip_sent)" by (simp add: clip_sent_eq)
  have h2: "response_ok 200" by (simp add: response_ok_def)
  have h3: "Not_json = Not_json \<or> Not_json = Json JNull" by simp
  have sel: "voiceNotes clip_sent = []" "console clip_sent = []"
    "localStorage clip_sent = Some (JsonText (JSON_stringify []))"
    by (simp_all add: clip_sent_eq)
  from unparseable_body_abandoned[OF h1 h2 h3] show ?thesis
    using h1 h2 by (simp add: sel)
qed

text \<open>
  A 2xx response whose body is the JSON object \<^verbatim>\<open>{}\<close>: \<^verbatim>\<open>data.text\<close> is
  \<^verbatim>\<open>undefined\<close> and nothing is thrown in \<open>transcribeAudio\<close>. The user has moved the
  calendar to 11 January after clicking record, so the render does not look at the text of
  the new note of 10 January: a note without text is inserted and persisted, and nothing is
  written to the console.
\<close>

theorem missing_text_counterexample:
  "voiceNotes (run [Click_record, Media_granted 0, Select_date jan_11, Click_stop []] idle_app)
     = []
   \<and> voiceNotes
        (run [Click_record, Media_granted 0, Select_date jan_11, Click_stop [],
              Fetch_settled 0 (Response 200 (Json (JObj []))) 1700000000000] idle_app)
       = [\<lparr>note_id = ''1700000000000'', date = ''2024-01-10'', note_text = None,
           completed = False\<rparr>]
   \<and> localStorage
        (run [Click_record, Media_granted 0, Select_date jan_11, Click_stop [],
              Fetch_settled 0 (Response 200 (Json (JObj []))) 1700000000000] idle_app)
       = Some (JsonText (JSON_stringify
           [\<lparr>note_id = ''1700000000000'', date = ''2024-01-10'', note_text = None,
             completed = False\<rparr>]))
   \<and> console
        (run [Click_record, Media_granted 0, Select_date jan_11, Click_stop [],
              Fetch_settled 0 (Response 200 (Json (JObj []))) 1700000000000] idle_app)
       = []"
  by (simp add: idle_app_eq eval)

text \<open>
  With the calendar still on 10 January the render that follows the insertion evaluates
  \<^verbatim>\<open>note.text.toLowerCase()\<close> on the new note and throws: the insertion is not committed
  and the component is removed from the page. No error of the transcription is reported
  in this case either.
\<close>

lemma missing_text_same_day:
  "\<not> mounted (step (Fetch_settled 0 (Response 200 (Json (JObj []))) 1700000000000) clip_sent)
   \<and> voiceNotes (step (Fetch_settled 0 (Response 200 (Json (JObj []))) 1700000000000) clip_sent)
       = []
   \<and> console (step (Fetch_settled 0 (Response 200 (Json (JObj []))) 1700000000000) clip_sent)
       = []"
  by (simp add: clip_sent_eq eval)

subsection \<open>The date of a new note\<close>

text \<open>
  Claim C1, as the code has it. The store holds well-typed notes. A recording is started
  while the flag is off, the microphone is granted, the recording is stopped and its
  transcription succeeds with a string; the selected date may change any number of times
  before the grant, during the capture and while the request is pending. The new note is
  appended to the collection as it was when the record button was clicked, and its date is
  the date that was selected at that click.
\<close>

theorem note_dated_at_record_click:
  assumes live: "mounted s"
    and idle: "\<not> recording s"
    and typed: "\<forall>n\<in>set (voiceNotes s). well_typed n"
    and ok: "response_ok status"
    and dt: "data_text data = Inr (Some (JStr transcript))"
  shows "voiceNotes
           (run ([Click_record] @ map Select_date ds1
                 @ [Media_granted (length (awaiting_media s))] @ map Select_date ds2
                 @ [Click_stop clip] @ map Select_date ds3
                 @ [Fetch_settled (length (in_flight s)) (Response status (Json data)) now]) s)
         = voiceNotes s
           @ [\<lparr>note_id = toString now, date = format (selectedDate s),
               note_text = Some (JStr transcript), completed = False\<rparr>]"
  using assms
  by (simp add: run_append run_select_dates handlers remove_at_last transcribe_try_def
      setVoiceNotes_typed typed_examples persist_effect_def)

theorem note_dated_at_record_click_witness:
  "mounted idle_app
   \<and> \<not> recording idle_app
   \<and> voiceNotes idle_app = []
   \<and> response_ok 200
   \<and> data_text (JObj [(''text'', JStr ''hi'')]) = Inr (Some (JStr ''hi''))
   \<and> voiceNotes
        (run [Click_record, Media_granted 0, Select_date jan_11, Click_stop [],
              Fetch_settled 0 (Response 200 (Json (JObj [(''text'', JStr ''hi'')])))
                1700000000000] idle_app)
       = [\<lparr>note_id = ''1700000000000'', date = ''2024-01-10'',
           note_text = Some (JStr ''hi''), completed = False\<rparr>]"
proof -
  have h0: "mounted idle_app" by (simp add: idle_app_eq)
  have h1: "\<not> recording idle_app" by (simp add: idle_app_eq)
  have sel: "awaiting_media idle_app = []" "in_flight idle_app = []"
    "voiceNotes idle_app = []" "selectedDate idle_app = jan_10"
    by (simp_all add: idle_app_eq)
  have h2: "\<forall>n\<in>set (voiceNotes idle_app). well_typed n" by (simp add: sel)
  have h3: "response_ok 200" by (simp add: response_ok_def)
  have h4: "data_text (JObj [(''text'', JStr ''hi'')]) = Inr (Some (JStr ''hi''))" by simp
  from note_dated_at_record_click[OF h0 h1 h2 h3 h4, where ?ds1.0 = "[]"
      and ?ds2.0 = "[jan_11]" and ?ds3.0 = "[]" and clip = "[]" and now = 1700000000000]
  show ?thesis using h0 h1 h3 h4
    by (simp add: sel format_jan_10 toString_now del: step.simps)
qed

text \<open>
  The date is changed from 10 to 11 January during the capture. When stop is clicked the
  selected date is 11 January; the note is filed under 10 January.
\<close>

theorem filed_at_stop_counterexample:
  "format (selectedDate (run [Click_record, Media_granted 0, Select_date jan_11] idle_app))
     = ''2024-01-11''
   \<and> map date
        (voiceNotes
          (run [Click_record, Media_granted 0, Select_date jan_11, Click_stop [],
                Fetch_settled 0 (reply ''hi'') 1700000000000] idle_app))
       = [''2024-01-10'']"
  by (simp add: idle_app_eq eval)

section \<open>Recording\<close>

subsection \<open>A start that fails\<close>

text \<open>
  Claim C4, evaluated. From the idle application the record button is clicked and the
  microphone is refused. The error is written to the console, but the flag set by line 42 is
  never cleared: the record button stays disabled (a click on it changes nothing), and the
  stop button does nothing either, because no recorder was ever stored.
\<close>

theorem denied_start_stays_recording:
  "recording (run [Click_record, Media_denied 0] idle_app)
   \<and> console (run [Click_record, Media_denied 0] idle_app)
       = [(''Error starting recording:'', DeviceError)]
   \<and> step Click_record (run [Click_record, Media_denied 0] idle_app)
       = run [Click_record, Media_denied 0] idle_app
   \<and> step (Click_stop []) (run [Click_record, Media_denied 0] idle_app)
       = run [Click_record, Media_denied 0] idle_app"
  by (simp add: idle_app_eq eval)

subsection \<open>Starting twice\<close>

text \<open>While the flag is on, a click on the record button changes nothing.\<close>

lemma record_button_disabled: "recording s \<Longrightarrow> step Click_record s = s"
  by (simp add: click_record_def)

text \<open>
  Claim C5, evaluated. A first recording has been stopped and its request is pending. A
  second recording is started and granted; then the first request is answered, and line 103
  clears the flag although the second recorder is capturing. A further click on the record
  button is therefore let through: two recorders are active at once, acquired by two
  starts with no stop in between.
\<close>

theorem overlapping_start_acquires_again:
  "\<not> recording
       (run [Click_record, Media_granted 0, Fetch_settled 0 (reply ''first'') 1700000000000]
          clip_sent)
   \<and> map active
        (recorders
          (run [Click_record, Media_granted 0, Fetch_settled 0 (reply ''first'') 1700000000000]
             clip_sent))
       = [False, True]
   \<and> map active
        (recorders
          (run [Click_record, Media_granted 0, Fetch_settled 0 (reply ''first'') 1700000000000,
                Click_record, Media_granted 0] clip_sent))
       = [False, True, True]"
proof -
  let ?c = "\<lparr>c_selectedDate = jan_10, c_voiceNotes = []\<rparr>"
  let ?n = "\<lparr>note_id = ''1700000000000'', date = ''2024-01-10'',
             note_text = Some (JStr ''first''), completed = False\<rparr>"
  let ?s = "\<lparr>selectedDate = jan_10, voiceNotes = [?n], recording = False,
             mediaRecorder = Some 1, searchTerm = [],
             localStorage = Some (JsonText (JSON_stringify [?n])), console = [],
             awaiting_media = [],
             recorders = [\<lparr>listener = ?c, active = False\<rparr>, \<lparr>listener = ?c, active = True\<rparr>],
             in_flight = [], mounted = True\<rparr>"
  have first: "run [Click_record, Media_granted 0,
                    Fetch_settled 0 (reply ''first'') 1700000000000] clip_sent = ?s"
    by (simp add: clip_sent_eq eval)
  have second: "map active (recorders (run [Click_record, Media_granted 0] ?s))
                = [False, True, True]"
    by (simp add: eval)
  have split: "run [Click_record, Media_granted 0,
                    Fetch_settled 0 (reply ''first'') 1700000000000,
                    Click_record, Media_granted 0] clip_sent
               = run [Click_record, Media_granted 0]
                   (run [Click_record, Media_granted 0,
                         Fetch_settled 0 (reply ''first'') 1700000000000] clip_sent)"
    by (simp only: run.simps)
  have "map active
          (recorders
            (run [Click_record, Media_granted 0,
                  Fetch_settled 0 (reply ''first'') 1700000000000,
                  Click_record, Media_granted 0] clip_sent))
        = [False, True, True]"
    by (simp only: split first second)
  moreover have "\<not> recording ?s" "map active (recorders ?s) = [False, True]"
    by simp_all
  ultimately show ?thesis by (simp only: first) simp
qed

section \<open>Identifiers of notes\<close>

lemma distinct_ids_toggle: "distinct_ids (toggleNoteCompletion i ns) = distinct_ids ns"
  by (simp add: distinct_ids_def toggle_ids)

lemma distinct_ids_delete: "distinct_ids ns \<Longrightarrow> distinct_ids (deleteNote i ns)"
  by (simp add: distinct_ids_def deleteNote_def distinct_map_filter)

lemma listener_update:
  "h < length rs \<Longrightarrow> (map listener rs)[h := listener (rs ! h)] = map listener rs"
  by (simp add: list_update_same_conv)

lemma closures_recorder_stop:
  "set (closures (recorder_stop h clip s)) \<subseteq> set (closures s)"
proof (cases "h < length (recorders s) \<and> active (recorders s ! h)")
  case False
  then have "recorder_stop h clip s = s" by (auto simp: recorder_stop_def)
  then show ?thesis by simp
next
  case True
  then have "map listener ((recorders s)[h := (recorders s ! h)\<lparr>active := False\<rparr>])
             = map listener (recorders s)"
    by (simp add: map_update listener_update)
  moreover have "listener (recorders s ! h) \<in> set (map listener (recorders s))"
    using True nth_mem[of h "map listener (recorders s)"] by simp
  ultimately show ?thesis using True
    by (auto simp: closures_def recorder_stop_def simp del: map_update)
qed

lemma closures_update:
  "closures (s\<lparr>recording := b\<rparr>) = closures s"
  "closures (s\<lparr>mounted := m\<rparr>) = closures s"
  "closures (s\<lparr>selectedDate := d\<rparr>) = closures s"
  "closures (s\<lparr>searchTerm := t\<rparr>) = closures s"
  "closures (s\<lparr>console := l\<rparr>) = closures s"
  "closures (s\<lparr>voiceNotes := ns\<rparr>) = closures s"
  "closures (persist_effect s) = closures s"
  by (simp_all add: closures_def persist_effect_def)

lemma closures_commit: "closures s' = closures s \<Longrightarrow> closures (commit s s') = closures s"
  using commit_cases[of s s'] by (auto simp: closures_update)

lemma closures_setVoiceNotes: "closures (setVoiceNotes ns s) = closures s"
  unfolding setVoiceNotes_def by (rule closures_commit) (simp add: closures_update)

lemma closures_step_cases:
  assumes "c \<in> set (closures (step e s))"
  shows "c \<in> set (closures s)
       \<or> c = \<lparr>c_selectedDate = selectedDate s, c_voiceNotes = voiceNotes s\<rparr>"
proof (cases e)
  case Click_record
  with assms show ?thesis
    by (auto simp: closures_def click_record_def startRecording_def split: if_splits)
next
  case (Media_granted k)
  with assms show ?thesis
    using set_remove_at[of k "awaiting_media s"]
    by (auto simp: closures_def media_granted_def split: if_splits)
next
  case (Media_denied k)
  with assms show ?thesis
    using set_remove_at[of k "awaiting_media s"]
    by (auto simp: closures_def media_denied_def split: if_splits)
next
  case (Click_stop clip)
  have "step e s = s \<or> (\<exists>h. step e s = (recorder_stop h clip s)\<lparr>recording := False\<rparr>)"
    using Click_stop by (auto simp: click_stop_def stopRecording_def split: option.splits)
  with assms show ?thesis
    using closures_recorder_stop[of _ clip s] by (auto simp: subset_iff closures_update)
next
  case (Fetch_settled j r now)
  show ?thesis
  proof (cases "j < length (in_flight s)")
    case False
    with assms Fetch_settled show ?thesis by (simp add: fetch_settled_def)
  next
    case True
    have eq: "closures (step e s) = closures (s\<lparr>in_flight := remove_at j (in_flight s)\<rparr>)"
      using Fetch_settled True
      by (simp add: fetch_settled_def transcribeAudio_def closures_setVoiceNotes closures_update
          split: sum.splits)
    have sub: "set (closures (s\<lparr>in_flight := remove_at j (in_flight s)\<rparr>)) \<subseteq> set (closures s)"
      using set_remove_at[of j "in_flight s"] by (auto simp: closures_def)
    from assms have "c \<in> set (closures (s\<lparr>in_flight := remove_at j (in_flight s)\<rparr>))"
      by (simp only: eq)
    with sub show ?thesis by auto
  qed
next
  case (Select_date d)
  with assms show ?thesis by (simp add: closures_commit closures_update)
next
  case (Type_search t)
  with assms show ?thesis by (simp add: closures_commit closures_update)
next
  case (Click_toggle i)
  with assms show ?thesis by (simp add: closures_setVoiceNotes)
next
  case (Click_delete i)
  with assms show ?thesis by (simp add: closures_setVoiceNotes)
qed

lemma transcribe_try_notes:
  "transcribe_try c r now = Inr ns \<Longrightarrow>
     \<exists>n. ns = c_voiceNotes c @ [n] \<and> note_id n = toString now"
  by (auto simp: transcribe_try_def split: fetch_result.splits body.splits sum.splits if_splits)

lemma distinct_commit:
  "distinct_ids (voiceNotes s) \<Longrightarrow> distinct_ids (voiceNotes s') \<Longrightarrow>
     distinct_ids (voiceNotes (commit s s'))"
  using commit_cases[of s s'] by auto

lemma distinct_setVoiceNotes:
  "distinct_ids (voiceNotes s) \<Longrightarrow> distinct_ids ns \<Longrightarrow>
     distinct_ids (voiceNotes (setVoiceNotes ns s))"
  unfolding setVoiceNotes_def by (rule distinct_commit) (simp_all add: persist_effect_def)

lemma voiceNotes_step:
  assumes inv: "ids_invariant s" and fresh: "fresh_at e s"
  shows "distinct_ids (voiceNotes (step e s))"
proof (cases e)
  case (Fetch_settled j r now)
  show ?thesis
  proof (cases "j < length (in_flight s)")
    case False
    with Fetch_settled inv show ?thesis by (simp add: fetch_settled_def ids_invariant_def)
  next
    case True
    let ?c = "continuation (in_flight s ! j)"
    have "?c \<in> set (closures s)" using True by (simp add: closures_def)
    with inv have dc: "distinct_ids (c_voiceNotes ?c)"
      by (simp add: ids_invariant_def list_all_iff)
    from fresh Fetch_settled True
    have fr: "toString now \<notin> set (map note_id (c_voiceNotes ?c))" by simp
    from inv have old: "distinct_ids (voiceNotes s)" by (simp add: ids_invariant_def)
    show ?thesis
    proof (cases "transcribe_try ?c r now")
      case (Inl err)
      with Fetch_settled True old show ?thesis
        by (simp add: fetch_settled_def transcribeAudio_def)
    next
      case (Inr ns)
      from transcribe_try_notes[OF Inr] obtain n
        where ns: "ns = c_voiceNotes ?c @ [n]" and n: "note_id n = toString now" by blast
      have "distinct_ids ns" using dc fr ns n by (simp add: distinct_ids_def)
      with Fetch_settled True Inr old show ?thesis
        by (simp add: fetch_settled_def transcribeAudio_def distinct_setVoiceNotes)
    qed
  qed
next
  case (Click_toggle i)
  with inv show ?thesis
    by (simp add: distinct_setVoiceNotes distinct_ids_toggle ids_invariant_def)
next
  case (Click_delete i)
  with inv show ?thesis
    by (simp add: distinct_setVoiceNotes distinct_ids_delete ids_invariant_def)
next
  case Click_record
  with inv show ?thesis
    by (simp add: click_record_def startRecording_def ids_invariant_def)
next
  case (Media_granted k)
  with inv show ?thesis by (simp add: media_granted_def ids_invariant_def)
next
  case (Media_denied k)
  with inv show ?thesis by (simp add: media_denied_def ids_invariant_def)
next
  case (Click_stop clip)
  with inv show ?thesis
    by (simp add: click_stop_def stopRecording_def recorder_stop_def ids_invariant_def
        split: option.splits)
next
  case (Select_date d)
  with inv show ?thesis by (simp add: ids_invariant_def distinct_commit)
next
  case (Type_search t)
  with inv show ?thesis by (simp add: ids_invariant_def distinct_commit)
qed

lemma ids_invariant_step:
  assumes inv: "ids_invariant s" and fresh: "fresh_at e s"
  shows "ids_invariant (step e s)"
proof -
  have "distinct_ids (c_voiceNotes c)" if "c \<in> set (closures (step e s))" for c
    using closures_step_cases[OF that] inv by (auto simp: ids_invariant_def list_all_iff)
  with voiceNotes_step[OF inv fresh] show ?thesis
    by (simp add: ids_invariant_def list_all_iff)
qed

lemma ids_invariant_run:
  "ids_invariant s \<Longrightarrow> fresh_run es s \<Longrightarrow> ids_invariant (run es s)"
  by (induction es arbitrary: s) (simp_all add: ids_invariant_step del: step.simps)

lemma closures_mount: "mount today item = Ok s \<Longrightarrow> closures s = []"
proof -
  assume m: "mount today item = Ok s"
  have base: "closures (persist_effect (initial today item)) = []"
    by (simp add: closures_def persist_effect_def initial_def)
  from m show ?thesis
    by (auto simp: mount_def base closures_setVoiceNotes
        split: sum.splits option.splits json.splits if_splits)
qed

text \<open>
  Claim C10, as the code has it. The identifier of a new note is the clock reading at the
  moment the transcription is answered, and nothing compares it with the identifiers in the
  store. Starting from stored notes with distinct identifiers, the identifiers stay pairwise
  distinct through every sequence of events in which each such clock reading differs from the
  identifiers of the collection the new note is appended to.
\<close>

theorem ids_distinct_when_fresh:
  assumes "mount today item = Ok s0" and "distinct_ids (voiceNotes s0)" and "fresh_run es s0"
  shows "distinct_ids (voiceNotes (run es s0))"
proof -
  have "ids_invariant s0" using assms(2) closures_mount[OF assms(1)]
    by (simp add: ids_invariant_def)
  from ids_invariant_run[OF this assms(3)] show ?thesis by (simp add: ids_invariant_def)
qed

theorem ids_distinct_when_fresh_witness:
  "mount jan_10 stored_a = Ok app_a
   \<and> distinct_ids (voiceNotes app_a)
   \<and> fresh_run [Click_record, Media_granted 0, Click_stop [],
                Fetch_settled 0 (reply ''call bob'') 1700000000000] app_a
   \<and> map note_id
        (voiceNotes
          (run [Click_record, Media_granted 0, Click_stop [],
                Fetch_settled 0 (reply ''call bob'') 1700000000000] app_a))
       = [''1704880800000'', ''1700000000000'']
   \<and> distinct_ids
        (voiceNotes
          (run [Click_record, Media_granted 0, Click_stop [],
                Fetch_settled 0 (reply ''call bob'') 1700000000000] app_a))"
proof -
  have h2: "distinct_ids (voiceNotes app_a)"
    by (simp add: app_a_eq distinct_ids_def)
  have h3: "fresh_run [Click_record, Media_granted 0, Click_stop [],
                       Fetch_settled 0 (reply ''call bob'') 1700000000000] app_a"
    by (simp add: app_a_eq eval note_a_def)
  have ids: "map note_id
               (voiceNotes
                 (run [Click_record, Media_granted 0, Click_stop [],
                       Fetch_settled 0 (reply ''call bob'') 1700000000000] app_a))
             = [''1704880800000'', ''1700000000000'']"
    by (simp add: app_a_eq eval note_a_def)
  from ids_distinct_when_fresh[OF mount_stored_a h2 h3] mount_stored_a h2 h3 ids
  show ?thesis by (simp only:)
qed

text \<open>
  Two notes are recorded one after the other, and the clock reads the same value at both
  answers (\<^verbatim>\<open>Date.now()\<close> is the wall clock in milliseconds: it is coarse, and it can
  be set back). Both notes get the same identifier.
\<close>

theorem same_clock_counterexample:
  "map note_id
     (voiceNotes
       (run [Click_record, Media_granted 0, Click_stop [],
             Fetch_settled 0 (reply ''one'') 1700000000000,
             Click_record, Media_granted 0, Click_stop [],
             Fetch_settled 0 (reply ''two'') 1700000000000] idle_app))
     = [''1700000000000'', ''1700000000000'']
   \<and> \<not> distinct_ids
        (voiceNotes
          (run [Click_record, Media_granted 0, Click_stop [],
                Fetch_settled 0 (reply ''one'') 1700000000000,
                Click_record, Media_granted 0, Click_stop [],
                Fetch_settled 0 (reply ''two'') 1700000000000] idle_app))"
proof -
  have "map note_id
          (voiceNotes
            (run [Click_record, Media_granted 0, Click_stop [],
                  Fetch_settled 0 (reply ''one'') 1700000000000,
                  Click_record, Media_granted 0, Click_stop [],
                  Fetch_settled 0 (reply ''two'') 1700000000000] idle_app))
        = [''1700000000000'', ''1700000000000'']"
    by (simp add: idle_app_eq eval)
  then show ?thesis by (simp add: distinct_ids_def)
qed

end
